theory Spec2Isabelle
  imports Main
begin

section \<open>Data model of package gocrc\<close>

text \<open>
  \<^verbatim>\<open>type Result[T any] struct { Value T; Err error; Index int }\<close>

  The type parameter \<open>'a\<close> is Go's \<open>T\<close>. A Go \<open>error\<close> is an interface value that is
  either nil or some error; it is modelled as \<open>'e option\<close> with \<open>None\<close> for nil, the
  type \<open>'e\<close> of non-nil errors being left open. The only operation the package applies
  to an error is its \<open>Error()\<close> method (through the verb \<open>%v\<close>), which the functions
  below take as the parameter \<open>errstr\<close>. \<open>Index\<close> is a Go \<open>int\<close>; the package never
  computes with it (it stores a loop index or the literal \<open>-1\<close>), so it is an \<open>int\<close>.
\<close>

record ('a, 'e) Result =
  Value :: 'a
  Err :: "'e option"
  Index :: int

text \<open>
  \<^verbatim>\<open>type Worker[T any] func(ctx context.Context) (T, error)\<close>

  What the package sees of a context is its \<open>Err()\<close> (nil until the context is
  cancelled or its deadline passes) and its \<open>Done()\<close> channel, closed exactly when
  \<open>Err()\<close> is non-nil; by the contract of \<open>context.Context\<close> a context that is done
  stays done and keeps its error. A worker is opaque to the package: it is modelled by
  the two values it returns on the context it is given, the context being taken as it
  is when the call returns.
\<close>

record 'e Context =
  ctx_err :: "'e option"

definition ctx_done :: "'e Context \<Rightarrow> bool" where
  "ctx_done c = (ctx_err c \<noteq> None)"

type_synonym ('a, 'e) Worker = "'e Context \<Rightarrow> 'a \<times> 'e option"

text \<open>\<^verbatim>\<open>type MultiError[T any] struct { Results []Result[T] }\<close>\<close>

record ('a, 'e) MultiError =
  Results :: "('a, 'e) Result list"

section \<open>\<open>MultiError.Error\<close>\<close>

text \<open>The verb \<open>%d\<close> of \<open>fmt.Sprintf\<close> on an \<open>int\<close>: decimal digits, with a leading minus
  sign for a negative number.\<close>

definition digit :: "nat \<Rightarrow> char" where
  "digit d = ''0123456789'' ! d"

function format_nat :: "nat \<Rightarrow> string" where
  "format_nat n = (if n < 10 then [digit n] else format_nat (n div 10) @ [digit (n mod 10)])"
  by pat_completeness auto
termination
  by (relation "measure id") auto

definition format_d :: "int \<Rightarrow> string" where
  "format_d i = (if i < 0 then ''-'' @ format_nat (nat (- i)) else format_nat (nat i))"

text \<open>\<^verbatim>\<open>fmt.Sprintf("\n - Worker [%d]: %v", res.Index, res.Err)\<close> for a non-nil \<open>res.Err\<close>,
  whose \<open>%v\<close> is the error's \<open>Error()\<close> string.\<close>

definition Sprintf_worker :: "('e \<Rightarrow> string) \<Rightarrow> int \<Rightarrow> 'e \<Rightarrow> string" where
  "Sprintf_worker errstr idx e =
     ''\<newline> - Worker ['' @ format_d idx @ '']: '' @ errstr e"

text \<open>
  \<^verbatim>\<open>
  func (m *MultiError[T]) Error() string {
      var sb strings.Builder
      sb.WriteString("multiple errors occurred:")
      for _, res := range m.Results {
          if res.Err != nil {
              sb.WriteString(fmt.Sprintf("\n - Worker [%d]: %v", res.Index, res.Err))
          }
      }
      return sb.String()
  }
  \<close>
  The loop threads the builder's contents \<open>sb\<close> through the entries.
\<close>

fun Error_loop :: "('e \<Rightarrow> string) \<Rightarrow> string \<Rightarrow> ('a, 'e) Result list \<Rightarrow> string" where
  "Error_loop errstr sb [] = sb"
| "Error_loop errstr sb (res # rest) =
     (case Err res of
        Some e \<Rightarrow> Error_loop errstr (sb @ Sprintf_worker errstr (Index res) e) rest
      | None \<Rightarrow> Error_loop errstr sb rest)"

definition MultiError_Error :: "('e \<Rightarrow> string) \<Rightarrow> ('a, 'e) MultiError \<Rightarrow> string" where
  "MultiError_Error errstr m = Error_loop errstr ''multiple errors occurred:'' (Results m)"

text \<open>The line of one failing entry, and the entries of a list that failed.\<close>

definition entry_line :: "('e \<Rightarrow> string) \<Rightarrow> ('a, 'e) Result \<Rightarrow> string" where
  "entry_line errstr res =
     (case Err res of
        Some e \<Rightarrow> ''\<newline>'' @ '' - Worker ['' @ format_d (Index res) @ '']: '' @ errstr e
      | None \<Rightarrow> [])"

definition failing :: "('a, 'e) Result list \<Rightarrow> ('a, 'e) Result list" where
  "failing rs = filter (\<lambda>r. Err r \<noteq> None) rs"

section \<open>\<open>NoRace\<close>\<close>

text \<open>
  The state that the goroutines of \<open>NoRace\<close> share: the pre-sized slice \<open>results\<close>, the
  flag \<open>hasError\<close>, the counter of the \<open>sync.WaitGroup\<close>, and for every goroutine
  whether it has run to its end.
\<close>

record ('a, 'e) NoRace_state =
  results :: "('a, 'e) Result list"
  hasError :: bool
  wg :: nat
  exited :: "bool list"

text \<open>
  The body of goroutine \<open>index\<close>:
  \<^verbatim>\<open>
  go func() {
      defer wg.Done()
      val, err := worker(ctx)
      mu.Lock()
      results[index] = Result[T]{Value: val, Err: err, Index: index}
      if err != nil { hasError = true }
      mu.Unlock()
  }()
  \<close>
  The worker call touches no shared state and the writes happen under the mutex, so the
  body is one atomic step of the interleaving. A goroutine runs once: the step is not
  enabled (\<open>None\<close>) for a goroutine that has exited or was never launched.
\<close>

definition NoRace_goroutine ::
  "'e Context \<Rightarrow> ('a, 'e) Worker list \<Rightarrow> nat \<Rightarrow> ('a, 'e) NoRace_state
     \<Rightarrow> ('a, 'e) NoRace_state option" where
  "NoRace_goroutine ctx workers index s =
     (if index < length workers \<and> index < length (exited s) \<and> \<not> exited s ! index then
        (case (workers ! index) ctx of (val, err) \<Rightarrow>
           Some (s\<lparr>results := (results s)[index := \<lparr>Value = val, Err = err, Index = int index\<rparr>],
                   hasError := (if err \<noteq> None then True else hasError s),
                   wg := wg s - 1,
                   exited := (exited s)[index := True]\<rparr>))
      else None)"

text \<open>A schedule lists the goroutines in the order in which they take the mutex.\<close>

fun NoRace_run ::
  "'e Context \<Rightarrow> ('a, 'e) Worker list \<Rightarrow> nat list \<Rightarrow> ('a, 'e) NoRace_state
     \<Rightarrow> ('a, 'e) NoRace_state option" where
  "NoRace_run ctx workers [] s = Some s"
| "NoRace_run ctx workers (i # sched) s =
     (case NoRace_goroutine ctx workers i s of
        None \<Rightarrow> None
      | Some s' \<Rightarrow> NoRace_run ctx workers sched s')"

text \<open>
  \<^verbatim>\<open>
  var errResults []Result[T]
  for _, r := range results {
      if r.Err != nil { errResults = append(errResults, r) }
  }
  \<close>
\<close>

fun errResults_loop :: "('a, 'e) Result list \<Rightarrow> ('a, 'e) Result list \<Rightarrow> ('a, 'e) Result list" where
  "errResults_loop errResults [] = errResults"
| "errResults_loop errResults (r # rs) =
     errResults_loop (if Err r \<noteq> None then errResults @ [r] else errResults) rs"

text \<open>
  \<open>NoRace\<close> under a schedule of its goroutines. \<open>zero\<close> is the zero value of \<open>T\<close>, which
  fills the slice made by \<open>make\<close>. \<open>wg.Wait()\<close> returns only when the counter is zero:
  a schedule that leaves a goroutine unfinished leaves the caller blocked, which is the
  value \<open>None\<close>, as is a schedule that is not one of this program. The nil slice and the
  nil error of the empty case are \<open>[]\<close> and \<open>None\<close>.
\<close>

definition NoRace_init :: "'a \<Rightarrow> ('a, 'e) Worker list \<Rightarrow> ('a, 'e) NoRace_state" where
  "NoRace_init zero workers =
     \<lparr>results = replicate (length workers) \<lparr>Value = zero, Err = None, Index = 0\<rparr>,
      hasError = False,
      wg = length workers,
      exited = replicate (length workers) False\<rparr>"

definition NoRace ::
  "'a \<Rightarrow> 'e Context \<Rightarrow> ('a, 'e) Worker list \<Rightarrow> nat list
     \<Rightarrow> (('a, 'e) Result list \<times> ('a, 'e) MultiError option) option" where
  "NoRace zero ctx workers sched =
     (if length workers = 0 then Some ([], None)
      else
        (case NoRace_run ctx workers sched (NoRace_init zero workers) of
           None \<Rightarrow> None
         | Some s \<Rightarrow>
             if wg s \<noteq> 0 then None
             else if hasError s then
               Some (results s, Some \<lparr>Results = errResults_loop [] (results s)\<rparr>)
             else Some (results s, None)))"

text \<open>What worker \<open>i\<close> returns on the context, as the \<open>Result\<close> of position \<open>i\<close>.\<close>

definition outcome :: "('a, 'e) Worker list \<Rightarrow> nat \<Rightarrow> 'e Context \<Rightarrow> ('a, 'e) Result" where
  "outcome workers i c =
     \<lparr>Value = fst ((workers ! i) c), Err = snd ((workers ! i) c), Index = int i\<rparr>"

text \<open>A complete schedule of \<open>n\<close> goroutines runs each of them exactly once, in any order.\<close>

definition complete_schedule :: "nat \<Rightarrow> nat list \<Rightarrow> bool" where
  "complete_schedule n sched = (distinct sched \<and> set sched = {0..<n})"

section \<open>\<open>Race\<close>\<close>

text \<open>
  \<open>context.WithCancel(ctx)\<close> gives a child context and its \<open>cancel\<close> function. The child
  is done from the start when the parent is; \<open>cancel()\<close> sets the error
  \<open>context.Canceled\<close> (the parameter \<open>canceled\<close>) unless the child is done already.
\<close>

definition WithCancel :: "'e Context \<Rightarrow> 'e Context" where
  "WithCancel parent = \<lparr>ctx_err = ctx_err parent\<rparr>"

definition cancel :: "'e \<Rightarrow> 'e Context \<Rightarrow> 'e Context" where
  "cancel canceled c = (if ctx_err c = None then c\<lparr>ctx_err := Some canceled\<rparr> else c)"

text \<open>
  Where a goroutine of \<open>Race\<close> stands:
  \<^verbatim>\<open>
  go func() {
      val, err := worker(raceCtx)                          // G_worker
      res := Result[T]{Value: val, Err: err, Index: index}
      select {                                             // G_select res
      case resultCh <- res:
          cancel()                                         // G_cancel res
      case <-raceCtx.Done():
      }
  }()                                                      // G_exit res
  \<close>
  and where the caller stands: at its \<open>select\<close>, or returned with its two values.
\<close>

datatype ('a, 'e) goroutine =
  G_worker
| G_select "('a, 'e) Result"
| G_cancel "('a, 'e) Result"
| G_exit "('a, 'e) Result"

datatype ('a, 'e) caller_pc =
  M_select
| M_return "('a, 'e) Result" "'e option"

record ('a, 'e) Race_state =
  callerCtx :: "'e Context"
  raceCtx :: "'e Context"
  resultCh :: "('a, 'e) Result list"
  gos :: "('a, 'e) goroutine list"
  caller :: "('a, 'e) caller_pc"

text \<open>
  The atomic steps of an execution. \<open>CtxCancel e\<close> is the environment ending the
  caller's context with error \<open>e\<close>; \<open>Propagate\<close> is that end reaching the derived
  context. The others are steps of goroutine \<open>i\<close> or of the caller.
\<close>

datatype 'e event =
  WorkerReturn nat
| ChanSend nat
| CallCancel nat
| SeeDone nat
| CtxCancel 'e
| Propagate
| MainRecv
| MainCtxDone

text \<open>
  One step; \<open>None\<close> when the step is not enabled. A send on the channel of capacity 1
  can proceed when the buffer holds no value, a receive when it holds one, a receive
  from \<open>Done()\<close> when the context is done. Where a \<open>select\<close> has two cases that can
  proceed, Go takes either, so both steps are enabled. A return of \<open>Race\<close> runs the
  deferred \<open>cancel()\<close>.
\<close>

fun Race_step ::
  "'a \<Rightarrow> 'e \<Rightarrow> ('a, 'e) Worker list \<Rightarrow> 'e event \<Rightarrow> ('a, 'e) Race_state
     \<Rightarrow> ('a, 'e) Race_state option" where
  "Race_step zero canceled workers (WorkerReturn i) s =
     (if i < length workers \<and> i < length (gos s) then
        (case gos s ! i of
           G_worker \<Rightarrow>
             (case (workers ! i) (raceCtx s) of (val, err) \<Rightarrow>
                Some (s\<lparr>gos := (gos s)[i := G_select \<lparr>Value = val, Err = err, Index = int i\<rparr>]\<rparr>))
         | _ \<Rightarrow> None)
      else None)"
| "Race_step zero canceled workers (ChanSend i) s =
     (if i < length (gos s) then
        (case gos s ! i of
           G_select res \<Rightarrow>
             if length (resultCh s) < 1 then
               Some (s\<lparr>resultCh := resultCh s @ [res], gos := (gos s)[i := G_cancel res]\<rparr>)
             else None
         | _ \<Rightarrow> None)
      else None)"
| "Race_step zero canceled workers (CallCancel i) s =
     (if i < length (gos s) then
        (case gos s ! i of
           G_cancel res \<Rightarrow>
             Some (s\<lparr>raceCtx := cancel canceled (raceCtx s), gos := (gos s)[i := G_exit res]\<rparr>)
         | _ \<Rightarrow> None)
      else None)"
| "Race_step zero canceled workers (SeeDone i) s =
     (if i < length (gos s) then
        (case gos s ! i of
           G_select res \<Rightarrow>
             if ctx_done (raceCtx s) then Some (s\<lparr>gos := (gos s)[i := G_exit res]\<rparr>)
             else None
         | _ \<Rightarrow> None)
      else None)"
| "Race_step zero canceled workers (CtxCancel e) s =
     (if ctx_done (callerCtx s) then None
      else Some (s\<lparr>callerCtx := (callerCtx s)\<lparr>ctx_err := Some e\<rparr>\<rparr>))"
| "Race_step zero canceled workers Propagate s =
     (case ctx_err (callerCtx s) of
        Some e \<Rightarrow>
          if ctx_done (raceCtx s) then None
          else Some (s\<lparr>raceCtx := (raceCtx s)\<lparr>ctx_err := Some e\<rparr>\<rparr>)
      | None \<Rightarrow> None)"
| "Race_step zero canceled workers MainRecv s =
     (case caller s of
        M_select \<Rightarrow>
          (case resultCh s of
             res # rest \<Rightarrow>
               Some (s\<lparr>resultCh := rest, caller := M_return res (Err res),
                       raceCtx := cancel canceled (raceCtx s)\<rparr>)
           | [] \<Rightarrow> None)
      | M_return _ _ \<Rightarrow> None)"
| "Race_step zero canceled workers MainCtxDone s =
     (case caller s of
        M_select \<Rightarrow>
          (case ctx_err (callerCtx s) of
             Some e \<Rightarrow>
               Some (s\<lparr>caller := M_return \<lparr>Value = zero, Err = Some e, Index = - 1\<rparr> (Some e),
                       raceCtx := cancel canceled (raceCtx s)\<rparr>)
           | None \<Rightarrow> None)
      | M_return _ _ \<Rightarrow> None)"

fun Race_run ::
  "'a \<Rightarrow> 'e \<Rightarrow> ('a, 'e) Worker list \<Rightarrow> 'e event list \<Rightarrow> ('a, 'e) Race_state
     \<Rightarrow> ('a, 'e) Race_state option" where
  "Race_run zero canceled workers [] s = Some s"
| "Race_run zero canceled workers (ev # sched) s =
     (case Race_step zero canceled workers ev s of
        None \<Rightarrow> None
      | Some s' \<Rightarrow> Race_run zero canceled workers sched s')"

text \<open>
  The sequential start of \<open>Race\<close>: with no worker it returns at once (\<open>Inl\<close>) and no
  context is derived, no channel made and no goroutine launched; otherwise the caller
  reaches its \<open>select\<close> in the state \<open>Race_launch\<close>, one goroutine per worker.
\<close>

definition Race_launch :: "'e Context \<Rightarrow> ('a, 'e) Worker list \<Rightarrow> ('a, 'e) Race_state" where
  "Race_launch ctx workers =
     \<lparr>callerCtx = ctx,
      raceCtx = WithCancel ctx,
      resultCh = [],
      gos = replicate (length workers) G_worker,
      caller = M_select\<rparr>"

definition Race_enter ::
  "'a \<Rightarrow> 'e Context \<Rightarrow> ('a, 'e) Worker list
     \<Rightarrow> (('a, 'e) Result \<times> 'e option) + ('a, 'e) Race_state" where
  "Race_enter zero ctx workers =
     (if length workers = 0 then Inl (\<lparr>Value = zero, Err = None, Index = 0\<rparr>, None)
      else Inr (Race_launch ctx workers))"

text \<open>
  \<open>Race\<close> under a schedule: the two values it has returned when the schedule has run,
  \<open>None\<close> when the caller is still at its \<open>select\<close> or the schedule is not one of this
  program. Goroutines may go on after the return, so the schedule may too.
\<close>

definition Race ::
  "'a \<Rightarrow> 'e \<Rightarrow> 'e Context \<Rightarrow> ('a, 'e) Worker list \<Rightarrow> 'e event list
     \<Rightarrow> (('a, 'e) Result \<times> 'e option) option" where
  "Race zero canceled ctx workers sched =
     (case Race_enter zero ctx workers of
        Inl r \<Rightarrow> Some r
      | Inr s0 \<Rightarrow>
          (case Race_run zero canceled workers sched s0 of
             None \<Rightarrow> None
           | Some s \<Rightarrow>
               (case caller s of
                  M_select \<Rightarrow> None
                | M_return res err \<Rightarrow> Some (res, err))))"

text \<open>The local variable \<open>res\<close> of a goroutine, once its worker has returned.\<close>

fun produced :: "('a, 'e) goroutine \<Rightarrow> ('a, 'e) Result option" where
  "produced G_worker = None"
| "produced (G_select res) = Some res"
| "produced (G_cancel res) = Some res"
| "produced (G_exit res) = Some res"

text \<open>The goroutine whose send is the first of a schedule, and the number of sends and
  of receives in it.\<close>

fun first_send :: "'e event list \<Rightarrow> nat option" where
  "first_send [] = None"
| "first_send (ChanSend i # sched) = Some i"
| "first_send (ev # sched) = first_send sched"

fun is_send :: "'e event \<Rightarrow> bool" where
  "is_send (ChanSend i) = True"
| "is_send ev = False"

definition sends :: "'e event list \<Rightarrow> nat" where
  "sends sched = length (filter is_send sched)"

definition receives :: "'e event list \<Rightarrow> nat" where
  "receives sched = length (filter (\<lambda>ev. ev = MainRecv) sched)"

text \<open>
  Worker \<open>i\<close> returned \<open>res\<close> in the execution \<open>sched\<close>: its call returned at some
  point of the schedule, and \<open>res\<close> holds the two values it returned on the derived
  context as it was then, with the index \<open>i\<close>.
\<close>

definition returned_by ::
  "'a \<Rightarrow> 'e \<Rightarrow> 'e Context \<Rightarrow> ('a, 'e) Worker list \<Rightarrow> 'e event list \<Rightarrow> nat
     \<Rightarrow> ('a, 'e) Result \<Rightarrow> bool" where
  "returned_by zero canceled ctx workers sched i res =
     (\<exists>pre post t.
        sched = pre @ WorkerReturn i # post \<and>
        Race_run zero canceled workers pre (Race_launch ctx workers) = Some t \<and>
        res = outcome workers i (raceCtx t))"

section \<open>Invariants of the executions\<close>

text \<open>
  What holds of the shared state of \<open>NoRace\<close> while its goroutines run: the slice and
  the list of goroutines keep their length, the counter of the wait group is the number
  of goroutines still running, every goroutine that has exited has left the outcome of its
  own worker at its own index, and the flag is set exactly when one of them failed.
\<close>

definition NoRace_inv ::
  "'e Context \<Rightarrow> ('a, 'e) Worker list \<Rightarrow> ('a, 'e) NoRace_state \<Rightarrow> bool" where
  "NoRace_inv ctx workers s =
     (length (results s) = length workers \<and>
      length (exited s) = length workers \<and>
      wg s = length (filter Not (exited s)) \<and>
      (\<forall>i < length workers. exited s ! i \<longrightarrow> results s ! i = outcome workers i ctx) \<and>
      (hasError s \<longleftrightarrow> (\<exists>i < length workers. exited s ! i \<and> Err (outcome workers i ctx) \<noteq> None)))"

text \<open>
  What holds of every state of \<open>Race\<close>: one goroutine per worker, at most one value in
  the channel, and once the caller has returned its error is the \<open>Err\<close> of its
  \<open>Result\<close> and the derived context is done.
\<close>

definition Race_inv :: "('a, 'e) Worker list \<Rightarrow> ('a, 'e) Race_state \<Rightarrow> bool" where
  "Race_inv workers s =
     (length (gos s) = length workers \<and>
      length (resultCh s) \<le> 1 \<and>
      (\<forall>res err. caller s = M_return res err \<longrightarrow> err = Err res \<and> ctx_done (raceCtx s)))"

text \<open>
  What holds of a state of \<open>Race\<close> together with the schedule that led to it: the
  \<open>res\<close> of a goroutine is what its worker returned; every send is accounted for by
  the one receive or by the value in the channel; the caller has returned exactly when
  one of its two steps is in the schedule; while the caller has not received, the
  channel is empty or holds the value of the first send; once it has received, it has
  returned the value of the first send; when it took the \<open>Done\<close> branch it returned
  the index \<open>-1\<close> and the error of the caller's context; and that error was the
  context's from the start or came with a \<open>CtxCancel\<close> of the schedule.
\<close>

definition Race_hist ::
  "'a \<Rightarrow> 'e \<Rightarrow> 'e Context \<Rightarrow> ('a, 'e) Worker list \<Rightarrow> 'e event list \<Rightarrow> ('a, 'e) Race_state \<Rightarrow> bool" where
  "Race_hist zero canceled ctx workers sched s =
     ((\<forall>i < length workers. \<forall>r. produced (gos s ! i) = Some r \<longrightarrow>
          returned_by zero canceled ctx workers sched i r) \<and>
      sends sched = receives sched + length (resultCh s) \<and>
      receives sched \<le> 1 \<and>
      (caller s = M_select \<longrightarrow> receives sched = 0 \<and> MainCtxDone \<notin> set sched) \<and>
      (receives sched = 0 \<longrightarrow>
         (case first_send sched of
            None \<Rightarrow> resultCh s = []
          | Some i \<Rightarrow> i < length workers \<and> (\<exists>r. produced (gos s ! i) = Some r \<and> resultCh s = [r]))) \<and>
      (receives sched \<noteq> 0 \<longrightarrow>
         (\<exists>i r. first_send sched = Some i \<and> i < length workers \<and>
                produced (gos s ! i) = Some r \<and> caller s = M_return r (Err r))) \<and>
      (MainCtxDone \<in> set sched \<longrightarrow>
         receives sched = 0 \<and>
         (\<exists>e. ctx_err (callerCtx s) = Some e \<and>
              caller s = M_return \<lparr>Value = zero, Err = Some e, Index = - 1\<rparr> (Some e))) \<and>
      (caller s \<noteq> M_select \<longrightarrow> receives sched \<noteq> 0 \<or> MainCtxDone \<in> set sched) \<and>
      (\<forall>e. ctx_err (callerCtx s) = Some e \<longrightarrow> ctx_err ctx = Some e \<or> CtxCancel e \<in> set sched))"

section \<open>Properties of \<open>MultiError.Error\<close>\<close>

lemma Error_loop_append:
  "Error_loop errstr sb rs = sb @ concat (map (entry_line errstr) (failing rs))"
  by (induction rs arbitrary: sb)
     (auto simp: entry_line_def failing_def Sprintf_worker_def split: option.splits)

lemma entry_lines_failing:
  "map (entry_line errstr) (failing rs) =
   map (\<lambda>res. ''\<newline>'' @ '' - Worker ['' @ format_d (Index res) @ '']: '' @ errstr (the (Err res)))
       (filter (\<lambda>res. Err res \<noteq> None) rs)"
  by (induction rs) (auto simp: entry_line_def failing_def)

lemma format_d_examples:
  "format_d 0 = ''0''" "format_d 7 = ''7''" "format_d 1203 = ''1203''" "format_d (- 1) = ''-1''"
  by (simp_all add: format_d_def digit_def)

text \<open>
  C5. For every \<open>MultiError\<close> value the rendered string is the literal
  \<open>multiple errors occurred:\<close> followed, for each entry of \<open>Results\<close> whose error is set
  and in the order of \<open>Results\<close>, by a line break and the line
  \<open> - Worker [<index>]: <error message>\<close>, the index in decimal.
\<close>

theorem MultiError_Error_render:
  "MultiError_Error errstr m =
     ''multiple errors occurred:'' @
     concat (map (\<lambda>res. ''\<newline>'' @ '' - Worker ['' @ format_d (Index res) @ '']: '' @ errstr (the (Err res)))
                 (filter (\<lambda>res. Err res \<noteq> None) (Results m)))"
  by (simp add: MultiError_Error_def Error_loop_append entry_lines_failing)

lemma MultiError_Error_example:
  "MultiError_Error id
     \<lparr>Results = [\<lparr>Value = (0::nat), Err = None, Index = 0\<rparr>,
                 \<lparr>Value = 0, Err = Some ''boom'', Index = 1\<rparr>,
                 \<lparr>Value = 0, Err = Some ''late'', Index = 12\<rparr>]\<rparr>
   = ''multiple errors occurred:\<newline> - Worker [1]: boom\<newline> - Worker [12]: late''"
  by (simp add: MultiError_Error_def Sprintf_worker_def format_d_def digit_def)

text \<open>
  C10. \<open>MultiError.Error\<close> skips every entry whose \<open>Err\<close> is nil: when \<open>Results\<close> is
  empty or holds only entries with a nil error, the rendered string is exactly
  \<open>multiple errors occurred:\<close>. The method is a total function, so it yields this
  string on every such input.
\<close>

theorem MultiError_Error_no_failures:
  assumes "\<forall>res \<in> set (Results m). Err res = None"
  shows "MultiError_Error errstr m = ''multiple errors occurred:''"
proof -
  from assms have "failing (Results m) = []"
    by (auto simp: failing_def filter_empty_conv)
  then show ?thesis
    by (simp add: MultiError_Error_def Error_loop_append)
qed

theorem MultiError_Error_no_failures_witness:
  "MultiError_Error id \<lparr>Results = [\<lparr>Value = ''ok'', Err = None :: string option, Index = 0\<rparr>,
                                   \<lparr>Value = ''fine'', Err = None, Index = 1\<rparr>]\<rparr>
     = ''multiple errors occurred:'' \<and>
   MultiError_Error id \<lparr>Results = ([] :: (string, string) Result list)\<rparr>
     = ''multiple errors occurred:''"
  using MultiError_Error_no_failures
          [of "\<lparr>Results = [\<lparr>Value = ''ok'', Err = None :: string option, Index = 0\<rparr>,
                            \<lparr>Value = ''fine'', Err = None, Index = 1\<rparr>]\<rparr>" id]
        MultiError_Error_no_failures [of "\<lparr>Results = ([] :: (string, string) Result list)\<rparr>" id]
  by simp

section \<open>Properties of \<open>NoRace\<close>\<close>

lemma errResults_loop_failing: "errResults_loop acc rs = acc @ failing rs"
  by (induction rs arbitrary: acc) (auto simp: failing_def)

lemma filter_Not_update:
  "i < length fs \<Longrightarrow> \<not> fs ! i \<Longrightarrow> Suc (length (filter Not (fs[i := True]))) = length (filter Not fs)"
proof (induction fs arbitrary: i)
  case Nil
  then show ?case by simp
next
  case (Cons b fs)
  then show ?case by (cases i) auto
qed

lemma filter_Not_empty: "length (filter Not fs) = 0 \<Longrightarrow> i < length fs \<Longrightarrow> fs ! i"
  by (metis filter_empty_conv length_0_conv nth_mem)

lemma NoRace_inv_init: "NoRace_inv ctx workers (NoRace_init zero workers)"
  by (auto simp: NoRace_inv_def NoRace_init_def)

lemma NoRace_goroutine_SomeD:
  assumes "NoRace_goroutine ctx workers i s = Some s'"
  shows "i < length workers" "i < length (exited s)" "\<not> exited s ! i"
    "results s' = (results s)[i := outcome workers i ctx]"
    "hasError s' = (hasError s \<or> Err (outcome workers i ctx) \<noteq> None)"
    "wg s' = wg s - 1"
    "exited s' = (exited s)[i := True]"
  using assms
  by (auto simp: NoRace_goroutine_def outcome_def split: if_splits prod.splits)

lemma NoRace_inv_step:
  assumes inv: "NoRace_inv ctx workers s" and step: "NoRace_goroutine ctx workers i s = Some s'"
  shows "NoRace_inv ctx workers s'"
proof -
  note d = NoRace_goroutine_SomeD[OF step]
  have len: "length (results s) = length workers" "length (exited s) = length workers"
    using inv by (simp_all add: NoRace_inv_def)
  have wg: "wg s' = length (filter Not (exited s'))"
    using inv d(2,3) filter_Not_update[of i "exited s"]
    by (simp add: NoRace_inv_def d(6,7))
  have res: "\<forall>j < length workers. exited s' ! j \<longrightarrow> results s' ! j = outcome workers j ctx"
    using inv len d(1) by (auto simp: NoRace_inv_def d(4,7) nth_list_update)
  have he: "hasError s' \<longleftrightarrow> (\<exists>j < length workers. exited s' ! j \<and> Err (outcome workers j ctx) \<noteq> None)"
  proof -
    have "(\<exists>j < length workers. exited s' ! j \<and> Err (outcome workers j ctx) \<noteq> None) \<longleftrightarrow>
          (\<exists>j < length workers. exited s ! j \<and> Err (outcome workers j ctx) \<noteq> None) \<or>
          Err (outcome workers i ctx) \<noteq> None"
      using len d(1) by (auto simp: d(7) nth_list_update split: if_splits)
    then show ?thesis using inv by (simp add: NoRace_inv_def d(5))
  qed
  show ?thesis
    using len wg res he by (simp add: NoRace_inv_def d(4,7))
qed

lemma NoRace_inv_run:
  "NoRace_inv ctx workers s \<Longrightarrow> NoRace_run ctx workers sched s = Some s' \<Longrightarrow> NoRace_inv ctx workers s'"
  by (induction sched arbitrary: s) (auto split: option.splits dest: NoRace_inv_step)

lemma NoRace_run_exited:
  "NoRace_run ctx workers sched s = Some s' \<Longrightarrow> length (exited s) = length workers \<Longrightarrow>
   distinct sched \<and> (\<forall>i \<in> set sched. i < length workers \<and> \<not> exited s ! i) \<and>
   length (exited s') = length workers \<and>
   (\<forall>i < length workers. exited s' ! i \<longleftrightarrow> exited s ! i \<or> i \<in> set sched)"
proof (induction sched arbitrary: s)
  case Nil
  then show ?case by simp
next
  case (Cons i sched)
  from Cons.prems(1) obtain t where
    step: "NoRace_goroutine ctx workers i s = Some t" and run: "NoRace_run ctx workers sched t = Some s'"
    by (auto split: option.splits)
  note d = NoRace_goroutine_SomeD[OF step]
  have lt: "length (exited t) = length workers" using Cons.prems(2) by (simp add: d(7))
  note ih = Cons.IH[OF run lt]
  have fresh: "i \<notin> set sched" using ih d(1,2) by (auto simp: d(7))
  have en: "\<forall>j \<in> set sched. j < length workers \<and> \<not> exited s ! j"
  proof
    fix j assume j: "j \<in> set sched"
    then have "j \<noteq> i" using fresh by auto
    then show "j < length workers \<and> \<not> exited s ! j"
      using ih j by (auto simp: d(7))
  qed
  have ex: "\<forall>j < length workers. exited s' ! j \<longleftrightarrow> exited s ! j \<or> j \<in> set (i # sched)"
    using ih d(1,2) by (auto simp: d(7) nth_list_update split: if_splits)
  show ?case using ih d(1,3) fresh en ex by simp
qed

lemma NoRace_run_enabled:
  "distinct sched \<Longrightarrow> \<forall>i \<in> set sched. i < length workers \<and> \<not> exited s ! i \<Longrightarrow>
   length (exited s) = length workers \<Longrightarrow> \<exists>s'. NoRace_run ctx workers sched s = Some s'"
proof (induction sched arbitrary: s)
  case Nil
  then show ?case by simp
next
  case (Cons i sched)
  obtain val err where w: "(workers ! i) ctx = (val, err)" by (cases "(workers ! i) ctx")
  define t where "t = s\<lparr>results := (results s)[i := \<lparr>Value = val, Err = err, Index = int i\<rparr>],
                   hasError := (if err \<noteq> None then True else hasError s),
                   wg := wg s - 1,
                   exited := (exited s)[i := True]\<rparr>"
  have step: "NoRace_goroutine ctx workers i s = Some t"
    using Cons.prems w by (simp add: NoRace_goroutine_def t_def)
  have "\<forall>j \<in> set sched. j < length workers \<and> \<not> exited t ! j"
    using Cons.prems by (auto simp: t_def nth_list_update)
  moreover have "length (exited t) = length workers" using Cons.prems by (simp add: t_def)
  moreover have "distinct sched" using Cons.prems by simp
  ultimately obtain s' where "NoRace_run ctx workers sched t = Some s'"
    using Cons.IH by blast
  then show ?case using step by simp
qed

lemma NoRace_inv_done:
  assumes inv: "NoRace_inv ctx workers s" and z: "wg s = 0"
  shows "results s = map (\<lambda>i. outcome workers i ctx) [0..<length workers]"
    and "hasError s \<longleftrightarrow> (\<exists>i < length workers. Err (outcome workers i ctx) \<noteq> None)"
proof -
  have all: "\<forall>i < length workers. exited s ! i"
    using inv z filter_Not_empty[of "exited s"] by (simp add: NoRace_inv_def)
  show "results s = map (\<lambda>i. outcome workers i ctx) [0..<length workers]"
    using inv all by (intro nth_equalityI) (simp_all add: NoRace_inv_def)
  show "hasError s \<longleftrightarrow> (\<exists>i < length workers. Err (outcome workers i ctx) \<noteq> None)"
    using inv all by (auto simp: NoRace_inv_def)
qed

lemma filter_Not_all: "\<forall>i < length fs. fs ! i \<Longrightarrow> filter Not fs = []"
  by (auto simp: filter_empty_conv in_set_conv_nth)

text \<open>What \<open>NoRace\<close> returns on a complete schedule, and that it returns on no other.\<close>

lemma NoRace_complete:
  assumes ne: "workers \<noteq> []" and cs: "complete_schedule (length workers) sched"
  shows "NoRace zero ctx workers sched =
           Some (map (\<lambda>i. outcome workers i ctx) [0..<length workers],
                 if \<exists>i < length workers. Err (outcome workers i ctx) \<noteq> None
                 then Some \<lparr>Results = failing (map (\<lambda>i. outcome workers i ctx) [0..<length workers])\<rparr>
                 else None)"
proof -
  let ?s0 = "NoRace_init zero workers"
  have l0: "length (exited ?s0) = length workers" by (simp add: NoRace_init_def)
  have en: "\<forall>i \<in> set sched. i < length workers \<and> \<not> exited ?s0 ! i"
    using cs by (auto simp: complete_schedule_def NoRace_init_def)
  obtain s where run: "NoRace_run ctx workers sched ?s0 = Some s"
    using NoRace_run_enabled[OF _ en l0] cs by (auto simp: complete_schedule_def)
  have inv: "NoRace_inv ctx workers s"
    using NoRace_inv_run[OF NoRace_inv_init run] .
  have "\<forall>i < length workers. exited s ! i"
    using NoRace_run_exited[OF run l0] cs by (auto simp: complete_schedule_def)
  then have z: "wg s = 0"
    using inv filter_Not_all[of "exited s"] by (simp add: NoRace_inv_def)
  show ?thesis
    using ne run z NoRace_inv_done[OF inv z]
    by (simp add: NoRace_def errResults_loop_failing)
qed

lemma NoRace_returns_complete:
  assumes ne: "workers \<noteq> []" and ret: "NoRace zero ctx workers sched = Some r"
  shows "complete_schedule (length workers) sched"
proof -
  let ?s0 = "NoRace_init zero workers"
  have l0: "length (exited ?s0) = length workers" by (simp add: NoRace_init_def)
  from ne ret obtain s where run: "NoRace_run ctx workers sched ?s0 = Some s" and z: "wg s = 0"
    by (auto simp: NoRace_def split: option.splits if_splits)
  have inv: "NoRace_inv ctx workers s"
    using NoRace_inv_run[OF NoRace_inv_init run] .
  have all: "\<forall>i < length workers. exited s ! i"
    using inv z filter_Not_empty[of "exited s"] by (simp add: NoRace_inv_def)
  note ex = NoRace_run_exited[OF run l0]
  have "set sched = {0..<length workers}"
  proof
    show "set sched \<subseteq> {0..<length workers}" using ex by auto
    show "{0..<length workers} \<subseteq> set sched"
      using ex all by (auto simp: NoRace_init_def)
  qed
  then show ?thesis using ex by (simp add: complete_schedule_def)
qed

lemma failing_outcomes:
  "failing (map (\<lambda>i. outcome workers i ctx) is) =
   map (\<lambda>i. outcome workers i ctx) (filter (\<lambda>i. snd ((workers ! i) ctx) \<noteq> None) is)"
  by (induction "is") (auto simp: failing_def outcome_def)

lemma complete_schedule_length: "complete_schedule n sched \<Longrightarrow> length sched = n"
  unfolding complete_schedule_def
  by (metis card_atLeastLessThan diff_zero distinct_card)

text \<open>
  C1. For every non-empty worker list, \<open>NoRace\<close> returns exactly when every goroutine
  has completed, whatever the order of completion, and whenever it returns, it returns
  the full ordered result sequence, successes included, and its error is non-nil if and
  only if at least one worker returned a non-nil error; the error is then a
  \<open>MultiError\<close> whose \<open>Results\<close> are exactly the entries of the failing workers, in
  ascending order of their index.
\<close>

theorem NoRace_error_iff:
  assumes "workers \<noteq> []"
  shows "(NoRace zero ctx workers sched \<noteq> None \<longleftrightarrow> complete_schedule (length workers) sched) \<and>
         (\<forall>rs err. NoRace zero ctx workers sched = Some (rs, err) \<longrightarrow>
            rs = map (\<lambda>i. outcome workers i ctx) [0..<length workers] \<and>
            (err \<noteq> None \<longleftrightarrow> (\<exists>i < length workers. snd ((workers ! i) ctx) \<noteq> None)) \<and>
            (\<forall>m. err = Some m \<longrightarrow>
               Results m = map (\<lambda>i. outcome workers i ctx)
                               (filter (\<lambda>i. snd ((workers ! i) ctx) \<noteq> None) [0..<length workers])))"
proof -
  let ?rs = "map (\<lambda>i. outcome workers i ctx) [0..<length workers]"
  let ?fail = "\<exists>i < length workers. snd ((workers ! i) ctx) \<noteq> None"
  let ?err = "if ?fail then Some \<lparr>Results = failing ?rs\<rparr> else None"
  have fail: "(\<exists>i < length workers. Err (outcome workers i ctx) \<noteq> None) = ?fail"
    by (simp add: outcome_def)
  have complete: "NoRace zero ctx workers sched = Some (?rs, ?err)"
    if "complete_schedule (length workers) sched"
    using NoRace_complete[OF assms that, of zero ctx] fail by simp
  have only: "complete_schedule (length workers) sched"
    if "NoRace zero ctx workers sched = Some r" for r
    using NoRace_returns_complete[OF assms that] .
  have returns: "NoRace zero ctx workers sched \<noteq> None \<longleftrightarrow> complete_schedule (length workers) sched"
    using complete only by auto
  have iff: "?err \<noteq> None \<longleftrightarrow> ?fail" by simp
  have res: "\<forall>m. ?err = Some m \<longrightarrow>
               Results m = map (\<lambda>i. outcome workers i ctx)
                             (filter (\<lambda>i. snd ((workers ! i) ctx) \<noteq> None) [0..<length workers])"
    by (simp add: failing_outcomes)
  have props: "rs = ?rs \<and> (err \<noteq> None \<longleftrightarrow> ?fail) \<and>
            (\<forall>m. err = Some m \<longrightarrow>
               Results m = map (\<lambda>i. outcome workers i ctx)
                               (filter (\<lambda>i. snd ((workers ! i) ctx) \<noteq> None) [0..<length workers]))"
    if ret: "NoRace zero ctx workers sched = Some (rs, err)" for rs err
  proof -
    from complete[OF only[OF ret]] ret have "rs = ?rs" "err = ?err" by simp_all
    with iff res show ?thesis by simp
  qed
  from returns props show ?thesis by blast
qed

theorem NoRace_error_iff_witness:
  "NoRace [] \<lparr>ctx_err = None\<rparr> [\<lambda>c. (''ok'', None), \<lambda>c. ([], Some ''err1''), \<lambda>c. (''fine'', None)]
       [2, 0, 1]
     = Some ([\<lparr>Value = ''ok'', Err = None, Index = 0\<rparr>,
              \<lparr>Value = [], Err = Some ''err1'', Index = 1\<rparr>,
              \<lparr>Value = ''fine'', Err = None, Index = 2\<rparr>],
             Some \<lparr>Results = [\<lparr>Value = [], Err = Some ''err1'', Index = 1\<rparr>]\<rparr>) \<and>
   NoRace [] \<lparr>ctx_err = None\<rparr> [\<lambda>c. (''ok'', None), \<lambda>c. ([], Some ''err1''), \<lambda>c. (''fine'', None)]
       [2, 0] = None"
proof -
  define ws :: "(string, string) Worker list"
    where "ws = [\<lambda>c. (''ok'', None), \<lambda>c. ([], Some ''err1''), \<lambda>c. (''fine'', None)]"
  define c :: "string Context" where "c = \<lparr>ctx_err = None\<rparr>"
  have len: "length ws = 3" by (simp add: ws_def)
  have ne: "ws \<noteq> []" by (simp add: ws_def)
  have cs: "complete_schedule (length ws) [2, 0, 1]"
    unfolding len by (auto simp: complete_schedule_def)
  have ncs: "\<not> complete_schedule (length ws) [2, 0]"
    unfolding len using complete_schedule_length[of 3 "[2, 0]"] by auto
  have "NoRace [] c ws [2, 0, 1] \<noteq> None"
    using NoRace_error_iff[OF ne, THEN conjunct1, THEN iffD2, OF cs] .
  then obtain rs err where ret: "NoRace [] c ws [2, 0, 1] = Some (rs, err)"
    by (cases "NoRace [] c ws [2, 0, 1]") auto
  note p = NoRace_error_iff[OF ne, THEN conjunct2, rule_format, OF ret]
  have o: "map (\<lambda>i. outcome ws i c) [0..<length ws] =
             [\<lparr>Value = ''ok'', Err = None, Index = 0\<rparr>,
              \<lparr>Value = [], Err = Some ''err1'', Index = 1\<rparr>,
              \<lparr>Value = ''fine'', Err = None, Index = 2\<rparr>]"
    unfolding len by (simp add: outcome_def upt_rec ws_def)
  have f: "map (\<lambda>i. outcome ws i c) (filter (\<lambda>i. snd ((ws ! i) c) \<noteq> None) [0..<length ws]) =
             [\<lparr>Value = [], Err = Some ''err1'', Index = 1\<rparr>]"
    unfolding len by (simp add: outcome_def upt_rec ws_def)
  have one: "(1::nat) < length ws \<and> snd ((ws ! 1) c) \<noteq> None"
    by (simp add: ws_def)
  from p have rs: "rs = map (\<lambda>i. outcome ws i c) [0..<length ws]" by (rule conjunct1)
  from p have e: "err \<noteq> None \<longleftrightarrow> (\<exists>i < length ws. snd ((ws ! i) c) \<noteq> None)"
    by (rule conjunct2[THEN conjunct1])
  from p have m: "\<forall>m. err = Some m \<longrightarrow>
       Results m = map (\<lambda>i. outcome ws i c) (filter (\<lambda>i. snd ((ws ! i) c) \<noteq> None) [0..<length ws])"
    by (rule conjunct2[THEN conjunct2])
  from one have "\<exists>i < length ws. snd ((ws ! i) c) \<noteq> None" by (rule exI)
  with e have "err \<noteq> None" by (rule iffD2)
  then obtain me where me: "err = Some me" by (cases err) auto
  from m[rule_format, OF me] f
  have "Results me = [\<lparr>Value = [], Err = Some ''err1'', Index = 1\<rparr>]" by (rule trans)
  then have me': "me = \<lparr>Results = [\<lparr>Value = [], Err = Some ''err1'', Index = 1\<rparr>]\<rparr>"
    by (cases me) simp
  have blocked: "NoRace [] c ws [2, 0] = None"
    using NoRace_error_iff[OF ne, THEN conjunct1, of "[]" c "[2, 0]"] ncs by blast
  have "NoRace [] c ws [2, 0, 1]
     = Some ([\<lparr>Value = ''ok'', Err = None, Index = 0\<rparr>,
              \<lparr>Value = [], Err = Some ''err1'', Index = 1\<rparr>,
              \<lparr>Value = ''fine'', Err = None, Index = 2\<rparr>],
             Some \<lparr>Results = [\<lparr>Value = [], Err = Some ''err1'', Index = 1\<rparr>]\<rparr>)"
    using ret rs o me me' by simp
  with blocked show ?thesis
    unfolding ws_def c_def by simp
qed

text \<open>
  C2. For every non-empty worker list, \<open>NoRace\<close> returns exactly when every goroutine
  has completed, whatever the order of completion, and whenever it returns, the
  sequence it returns has one entry per worker, and the entry at position \<open>i\<close> has
  \<open>Index = i\<close> and the \<open>Value\<close> and \<open>Err\<close> that worker \<open>i\<close> returned.
\<close>

theorem NoRace_order_preserved:
  assumes "workers \<noteq> []"
  shows "(NoRace zero ctx workers sched \<noteq> None \<longleftrightarrow> complete_schedule (length workers) sched) \<and>
         (\<forall>rs err. NoRace zero ctx workers sched = Some (rs, err) \<longrightarrow>
            length rs = length workers \<and>
            (\<forall>i < length workers.
               Index (rs ! i) = int i \<and> (Value (rs ! i), Err (rs ! i)) = (workers ! i) ctx))"
proof -
  have complete: "\<exists>err. NoRace zero ctx workers sched =
                     Some (map (\<lambda>i. outcome workers i ctx) [0..<length workers], err)"
    if "complete_schedule (length workers) sched"
    using NoRace_complete[OF assms that, of zero ctx] by simp
  have only: "complete_schedule (length workers) sched"
    if "NoRace zero ctx workers sched = Some r" for r
    using NoRace_returns_complete[OF assms that] .
  have returns: "NoRace zero ctx workers sched \<noteq> None \<longleftrightarrow> complete_schedule (length workers) sched"
    using complete only by auto
  have props: "length rs = length workers \<and>
            (\<forall>i < length workers.
               Index (rs ! i) = int i \<and> (Value (rs ! i), Err (rs ! i)) = (workers ! i) ctx)"
    if ret: "NoRace zero ctx workers sched = Some (rs, err)" for rs err
  proof -
    from complete[OF only[OF ret]] ret
    have "rs = map (\<lambda>i. outcome workers i ctx) [0..<length workers]" by auto
    then show ?thesis by (simp add: outcome_def)
  qed
  from returns props show ?thesis by blast
qed

theorem NoRace_order_preserved_witness:
  "(\<exists>rs err.
     NoRace (0::nat) \<lparr>ctx_err = None :: string option\<rparr> [\<lambda>c. (10, None), \<lambda>c. (20, None)] [1, 0]
       = Some (rs, err) \<and>
     length rs = 2 \<and>
     Index (rs ! 0) = 0 \<and> Value (rs ! 0) = 10 \<and> Err (rs ! 0) = None \<and>
     Index (rs ! 1) = 1 \<and> Value (rs ! 1) = 20 \<and> Err (rs ! 1) = None) \<and>
   NoRace (0::nat) \<lparr>ctx_err = None :: string option\<rparr> [\<lambda>c. (10, None), \<lambda>c. (20, None)] [] = None \<and>
   NoRace (0::nat) \<lparr>ctx_err = None :: string option\<rparr> [\<lambda>c. (10, None), \<lambda>c. (20, None)] [1] = None"
proof -
  define ws :: "(nat, string) Worker list"
    where "ws = [\<lambda>c. (10, None), \<lambda>c. (20, None)]"
  define c :: "string Context" where "c = \<lparr>ctx_err = None\<rparr>"
  have len: "length ws = 2" by (simp add: ws_def)
  have ne: "ws \<noteq> []" by (simp add: ws_def)
  have cs: "complete_schedule (length ws) [1, 0]"
    unfolding len by (auto simp: complete_schedule_def)
  have n0: "\<not> complete_schedule (length ws) []"
    unfolding len using complete_schedule_length[of 2 "[]"] by auto
  have n1: "\<not> complete_schedule (length ws) [1]"
    unfolding len using complete_schedule_length[of 2 "[1]"] by auto
  have "NoRace 0 c ws [1, 0] \<noteq> None"
    using NoRace_order_preserved[OF ne, THEN conjunct1, THEN iffD2, OF cs] .
  then obtain rs err where r: "NoRace 0 c ws [1, 0] = Some (rs, err)"
    by (cases "NoRace 0 c ws [1, 0]") auto
  note p = NoRace_order_preserved[OF ne, THEN conjunct2, rule_format, OF r]
  from p have l: "length rs = 2" unfolding len by (rule conjunct1)
  from p have a: "\<forall>i < length ws. Index (rs ! i) = int i \<and>
                    (Value (rs ! i), Err (rs ! i)) = (ws ! i) c"
    by (rule conjunct2)
  have "(0::nat) < length ws" by (simp add: len)
  from a[rule_format, OF this]
  have a0: "Index (rs ! 0) = 0 \<and> Value (rs ! 0) = 10 \<and> Err (rs ! 0) = None"
    by (simp add: ws_def)
  have "(1::nat) < length ws" by (simp add: len)
  from a[rule_format, OF this]
  have a1: "Index (rs ! 1) = 1 \<and> Value (rs ! 1) = 20 \<and> Err (rs ! 1) = None"
    by (simp add: ws_def)
  have e0: "NoRace 0 c ws [] = None"
    using NoRace_order_preserved[OF ne, THEN conjunct1, of 0 c "[]"] n0 by blast
  have e1: "NoRace 0 c ws [1] = None"
    using NoRace_order_preserved[OF ne, THEN conjunct1, of 0 c "[1]"] n1 by blast
  from r l a0 a1 have "\<exists>rs err. NoRace 0 c ws [1, 0] = Some (rs, err) \<and>
     length rs = 2 \<and>
     Index (rs ! 0) = 0 \<and> Value (rs ! 0) = 10 \<and> Err (rs ! 0) = None \<and>
     Index (rs ! 1) = 1 \<and> Value (rs ! 1) = 20 \<and> Err (rs ! 1) = None"
    by blast
  with e0 e1 show ?thesis
    unfolding ws_def c_def by blast
qed

section \<open>Properties of \<open>Race\<close>\<close>

lemma Race_run_append:
  "Race_run zero canceled workers (xs @ ys) s =
     (case Race_run zero canceled workers xs s of
        None \<Rightarrow> None
      | Some t \<Rightarrow> Race_run zero canceled workers ys t)"
  by (induction xs arbitrary: s) (auto split: option.splits)

lemma Race_run_snoc:
  "Race_run zero canceled workers (sched @ [ev]) s0 = Some s \<longleftrightarrow>
     (\<exists>t. Race_run zero canceled workers sched s0 = Some t \<and>
          Race_step zero canceled workers ev t = Some s)"
  by (auto simp: Race_run_append split: option.splits)

lemma Race_step_cases [consumes 1, case_names WorkerReturn ChanSend CallCancel SeeDone CtxCancel Propagate MainRecv MainCtxDone]:
  assumes "Race_step zero canceled workers ev t = Some s"
  obtains
    (WorkerReturn) i where "ev = WorkerReturn i" "i < length workers" "i < length (gos t)"
      "gos t ! i = G_worker" "s = t\<lparr>gos := (gos t)[i := G_select (outcome workers i (raceCtx t))]\<rparr>"
  | (ChanSend) i res where "ev = ChanSend i" "i < length (gos t)" "gos t ! i = G_select res"
      "resultCh t = []" "s = t\<lparr>resultCh := [res], gos := (gos t)[i := G_cancel res]\<rparr>"
  | (CallCancel) i res where "ev = CallCancel i" "i < length (gos t)" "gos t ! i = G_cancel res"
      "s = t\<lparr>raceCtx := cancel canceled (raceCtx t), gos := (gos t)[i := G_exit res]\<rparr>"
  | (SeeDone) i res where "ev = SeeDone i" "i < length (gos t)" "gos t ! i = G_select res"
      "ctx_done (raceCtx t)" "s = t\<lparr>gos := (gos t)[i := G_exit res]\<rparr>"
  | (CtxCancel) e where "ev = CtxCancel e" "ctx_err (callerCtx t) = None"
      "s = t\<lparr>callerCtx := (callerCtx t)\<lparr>ctx_err := Some e\<rparr>\<rparr>"
  | (Propagate) e where "ev = Propagate" "ctx_err (callerCtx t) = Some e" "ctx_err (raceCtx t) = None"
      "s = t\<lparr>raceCtx := (raceCtx t)\<lparr>ctx_err := Some e\<rparr>\<rparr>"
  | (MainRecv) res rest where "ev = MainRecv" "caller t = M_select" "resultCh t = res # rest"
      "s = t\<lparr>resultCh := rest, caller := M_return res (Err res),
              raceCtx := cancel canceled (raceCtx t)\<rparr>"
  | (MainCtxDone) e where "ev = MainCtxDone" "caller t = M_select" "ctx_err (callerCtx t) = Some e"
      "s = t\<lparr>caller := M_return \<lparr>Value = zero, Err = Some e, Index = - 1\<rparr> (Some e),
              raceCtx := cancel canceled (raceCtx t)\<rparr>"
proof (cases ev)
  case (WorkerReturn i)
  with assms that(1)[of i] show ?thesis
    by (auto simp: outcome_def split: if_splits goroutine.splits prod.splits)
next
  case (ChanSend i)
  with assms that(2)[of i] show ?thesis
    by (auto split: if_splits goroutine.splits)
next
  case (CallCancel i)
  with assms that(3)[of i] show ?thesis
    by (auto split: if_splits goroutine.splits)
next
  case (SeeDone i)
  with assms that(4)[of i] show ?thesis
    by (auto split: if_splits goroutine.splits)
next
  case (CtxCancel e)
  with assms that(5)[of e] show ?thesis
    by (auto simp: ctx_done_def split: if_splits)
next
  case Propagate
  with assms that(6) show ?thesis
    by (auto simp: ctx_done_def split: if_splits option.splits)
next
  case MainRecv
  with assms that(7) show ?thesis
    by (auto split: caller_pc.splits list.splits)
next
  case MainCtxDone
  with assms that(8) show ?thesis
    by (auto split: caller_pc.splits option.splits)
qed

lemma ctx_done_cancel: "ctx_done (cancel canceled c)"
  by (simp add: ctx_done_def cancel_def)

text \<open>State invariants\<close>

lemma Race_inv_launch: "Race_inv workers (Race_launch ctx workers)"
  by (simp add: Race_inv_def Race_launch_def)

lemma Race_inv_step:
  assumes "Race_step zero canceled workers ev t = Some s" and "Race_inv workers t"
  shows "Race_inv workers s"
  using assms
  by (cases rule: Race_step_cases)
     (auto simp: Race_inv_def ctx_done_cancel ctx_done_def cancel_def)

lemma Race_inv_run:
  "Race_run zero canceled workers sched t = Some s \<Longrightarrow> Race_inv workers t \<Longrightarrow> Race_inv workers s"
  by (induction sched arbitrary: t) (auto split: option.splits dest: Race_inv_step)

lemma returned_by_snoc:
  "returned_by zero canceled ctx workers sched i res \<Longrightarrow>
   returned_by zero canceled ctx workers (sched @ [ev]) i res"
  unfolding returned_by_def by (metis append_Cons append_assoc)

lemma returned_by_new:
  "Race_run zero canceled workers sched (Race_launch ctx workers) = Some t \<Longrightarrow>
   returned_by zero canceled ctx workers (sched @ [WorkerReturn i]) i (outcome workers i (raceCtx t))"
  unfolding returned_by_def by blast

lemma produced_step:
  assumes "Race_step zero canceled workers ev t = Some s" and "j < length (gos t)"
  shows "produced (gos s ! j) =
           (if ev = WorkerReturn j then Some (outcome workers j (raceCtx t)) else produced (gos t ! j))"
  using assms
  by (cases rule: Race_step_cases) (auto simp: nth_list_update)

lemma first_send_snoc:
  "first_send (sched @ [ev]) =
     (case first_send sched of
        Some i \<Rightarrow> Some i
      | None \<Rightarrow> (case ev of ChanSend i \<Rightarrow> Some i | _ \<Rightarrow> None))"
  by (induction sched rule: first_send.induct) (auto split: event.splits)

lemma sends_snoc: "sends (sched @ [ev]) = sends sched + (if is_send ev then 1 else 0)"
  by (simp add: sends_def)

lemma receives_snoc: "receives (sched @ [ev]) = receives sched + (if ev = MainRecv then 1 else 0)"
  by (simp add: receives_def)

lemma first_send_None_sends: "first_send sched = None \<longleftrightarrow> sends sched = 0"
  by (induction sched rule: first_send.induct) (auto simp: sends_def)

lemma Race_hist_launch: "Race_hist zero canceled ctx workers [] (Race_launch ctx workers)"
  by (simp add: Race_hist_def Race_launch_def sends_def receives_def)

lemma Race_hist_step:
  assumes run: "Race_run zero canceled workers sched (Race_launch ctx workers) = Some t"
    and step: "Race_step zero canceled workers ev t = Some s"
    and hist: "Race_hist zero canceled ctx workers sched t"
  shows "Race_hist zero canceled ctx workers (sched @ [ev]) s"
proof -
  have inv: "Race_inv workers t"
    using Race_inv_run[OF run Race_inv_launch] .
  then have len: "length (gos t) = length workers" by (simp add: Race_inv_def)
  have len': "length (gos s) = length workers"
    using Race_inv_step[OF step inv] by (simp add: Race_inv_def)
  note ps = produced_step[OF step, unfolded len]
  have c1: "\<forall>i < length workers. \<forall>r. produced (gos s ! i) = Some r \<longrightarrow>
              returned_by zero canceled ctx workers (sched @ [ev]) i r"
  proof (intro allI impI)
    fix i r assume i: "i < length workers" and p: "produced (gos s ! i) = Some r"
    show "returned_by zero canceled ctx workers (sched @ [ev]) i r"
    proof (cases "ev = WorkerReturn i")
      case True
      then show ?thesis using ps[OF i] p returned_by_new[OF run, of i] by simp
    next
      case False
      then have "produced (gos t ! i) = Some r" using ps[OF i] p by simp
      then have "returned_by zero canceled ctx workers sched i r"
        using hist i by (simp add: Race_hist_def)
      then show ?thesis by (rule returned_by_snoc)
    qed
  qed
  have rest: "sends (sched @ [ev]) = receives (sched @ [ev]) + length (resultCh s) \<and>
      receives (sched @ [ev]) \<le> 1 \<and>
      (caller s = M_select \<longrightarrow> receives (sched @ [ev]) = 0 \<and> MainCtxDone \<notin> set (sched @ [ev])) \<and>
      (receives (sched @ [ev]) = 0 \<longrightarrow>
         (case first_send (sched @ [ev]) of
            None \<Rightarrow> resultCh s = []
          | Some i \<Rightarrow> i < length workers \<and> (\<exists>r. produced (gos s ! i) = Some r \<and> resultCh s = [r]))) \<and>
      (receives (sched @ [ev]) \<noteq> 0 \<longrightarrow>
         (\<exists>i r. first_send (sched @ [ev]) = Some i \<and> i < length workers \<and>
                produced (gos s ! i) = Some r \<and> caller s = M_return r (Err r))) \<and>
      (MainCtxDone \<in> set (sched @ [ev]) \<longrightarrow>
         receives (sched @ [ev]) = 0 \<and>
         (\<exists>e. ctx_err (callerCtx s) = Some e \<and>
              caller s = M_return \<lparr>Value = zero, Err = Some e, Index = - 1\<rparr> (Some e))) \<and>
      (caller s \<noteq> M_select \<longrightarrow> receives (sched @ [ev]) \<noteq> 0 \<or> MainCtxDone \<in> set (sched @ [ev])) \<and>
      (\<forall>e. ctx_err (callerCtx s) = Some e \<longrightarrow> ctx_err ctx = Some e \<or> CtxCancel e \<in> set (sched @ [ev]))"
    using step
  proof (cases rule: Race_step_cases)
    case (WorkerReturn i)
    then show ?thesis using hist len
      by (auto simp: Race_hist_def sends_snoc receives_snoc first_send_snoc nth_list_update
               split: option.splits)
  next
    case (ChanSend i res)
    have fs: "receives sched = 0 \<Longrightarrow> first_send sched = None"
      using hist ChanSend(4) by (simp add: Race_hist_def first_send_None_sends)
    from ChanSend show ?thesis using hist len fs
      by (auto simp: Race_hist_def sends_snoc receives_snoc first_send_snoc nth_list_update
               split: option.splits)
  next
    case (CallCancel i res)
    then show ?thesis using hist len
      by (auto simp: Race_hist_def sends_snoc receives_snoc first_send_snoc nth_list_update
               split: option.splits)
  next
    case (SeeDone i res)
    then show ?thesis using hist len
      by (auto simp: Race_hist_def sends_snoc receives_snoc first_send_snoc nth_list_update
               split: option.splits)
  next
    case (CtxCancel e)
    then show ?thesis using hist len
      by (auto simp: Race_hist_def sends_snoc receives_snoc first_send_snoc
               split: option.splits)
  next
    case (Propagate e)
    then show ?thesis using hist len
      by (auto simp: Race_hist_def sends_snoc receives_snoc first_send_snoc
               split: option.splits)
  next
    case (MainRecv res rest)
    then show ?thesis using hist len
      by (auto simp: Race_hist_def sends_snoc receives_snoc first_send_snoc
               split: option.splits)
  next
    case (MainCtxDone e)
    then show ?thesis using hist len
      by (auto simp: Race_hist_def sends_snoc receives_snoc first_send_snoc
               split: option.splits)
  qed
  show ?thesis
    unfolding Race_hist_def using c1 rest by blast
qed

lemma Race_hist_run:
  "Race_run zero canceled workers sched (Race_launch ctx workers) = Some s \<Longrightarrow>
   Race_hist zero canceled ctx workers sched s"
proof (induction sched arbitrary: s rule: rev_induct)
  case Nil
  then have "s = Race_launch ctx workers" by simp
  then show ?case by (simp add: Race_hist_launch)
next
  case (snoc ev sched)
  then obtain t where run: "Race_run zero canceled workers sched (Race_launch ctx workers) = Some t"
    and step: "Race_step zero canceled workers ev t = Some s"
    by (auto simp: Race_run_snoc)
  show ?case using Race_hist_step[OF run step snoc.IH[OF run]] .
qed

lemmas Race_eval = Race_def Race_enter_def Race_launch_def WithCancel_def cancel_def ctx_done_def

lemma Race_returnsD:
  assumes "Race zero canceled ctx workers sched = Some (res, err)" and "workers \<noteq> []"
  obtains s where "Race_run zero canceled workers sched (Race_launch ctx workers) = Some s"
    and "caller s = M_return res err"
  using assms
  by (auto simp: Race_def Race_enter_def split: option.splits caller_pc.splits)

lemma receives_pos: "MainRecv \<in> set sched \<longleftrightarrow> receives sched \<noteq> 0"
  by (auto simp: receives_def filter_empty_conv)

text \<open>
  C3. When \<open>Race\<close> returns through the channel (its receive is in the schedule), the
  \<open>Result\<close> it returns is the one the winning worker produced: the winner is the
  goroutine of the first send, the \<open>Value\<close> and \<open>Err\<close> are what its worker returned,
  the \<open>Index\<close> is its position, and the error returned beside it is that worker's
  error.
\<close>

theorem Race_winner:
  assumes "workers \<noteq> []"
    and "Race zero canceled ctx workers sched = Some (res, err)"
    and "MainRecv \<in> set sched"
  shows "\<exists>i < length workers.
           first_send sched = Some i \<and>
           returned_by zero canceled ctx workers sched i res \<and>
           Index res = int i \<and>
           err = Err res"
proof -
  from assms(2,1) obtain s where
    run: "Race_run zero canceled workers sched (Race_launch ctx workers) = Some s"
    and ret: "caller s = M_return res err"
    by (rule Race_returnsD)
  note hist = Race_hist_run[OF run]
  from assms(3) have "receives sched \<noteq> 0" by (simp add: receives_pos)
  with hist ret obtain i where i: "first_send sched = Some i" "i < length workers"
    "produced (gos s ! i) = Some res" "err = Err res"
    by (auto simp: Race_hist_def)
  from hist i have rb: "returned_by zero canceled ctx workers sched i res"
    by (simp add: Race_hist_def)
  then have "Index res = int i"
    by (auto simp: returned_by_def outcome_def)
  with i rb show ?thesis by blast
qed

theorem Race_winner_witness:
  "returned_by ''zero'' ''context canceled'' \<lparr>ctx_err = None\<rparr>
     [\<lambda>c. (''slow'', None), \<lambda>c. (''win'', None)]
     [WorkerReturn 1, ChanSend 1, MainRecv, CallCancel 1, WorkerReturn 0, SeeDone 0]
     1 \<lparr>Value = ''win'', Err = None, Index = 1\<rparr>"
proof -
  have ne: "[\<lambda>c::string Context. (''slow'', None::string option), \<lambda>c. (''win'', None)] \<noteq> []"
    by simp
  have ret: "Race ''zero'' ''context canceled'' \<lparr>ctx_err = None\<rparr>
     [\<lambda>c. (''slow'', None), \<lambda>c. (''win'', None)]
     [WorkerReturn 1, ChanSend 1, MainRecv, CallCancel 1, WorkerReturn 0, SeeDone 0]
     = Some (\<lparr>Value = ''win'', Err = None, Index = 1\<rparr>, None)"
    by (simp add: Race_eval)
  have rcv: "MainRecv \<in> set [WorkerReturn 1, ChanSend 1, MainRecv, CallCancel 1, WorkerReturn 0, SeeDone 0 :: string event]"
    by simp
  show ?thesis
    using Race_winner[OF ne ret rcv] by simp
qed

text \<open>
  C4, as stated, fails. The caller's context below is done before \<open>Race\<close> is called,
  hence before any worker has published. The worker ignores it and returns; at its
  \<open>select\<close> the send can proceed, since the channel is empty, and is taken; at the
  caller's \<open>select\<close> the receive can proceed and is taken. \<open>Race\<close> returns the worker's
  \<open>Result\<close> with index \<open>0\<close> and a nil error, not the index \<open>-1\<close> and the context's
  error.
\<close>

theorem Race_done_context_counterexample:
  "Race (0::nat) ''context canceled'' \<lparr>ctx_err = Some ''context deadline exceeded''\<rparr>
     [\<lambda>c. (7, None)] [WorkerReturn 0, ChanSend 0, MainRecv]
   = Some (\<lparr>Value = 7, Err = None, Index = 0\<rparr>, None)"
  by (simp add: Race_eval)

text \<open>
  C4, amended. For a non-empty worker list: when the caller's context is done with
  error \<open>e\<close> and no worker has published by the time the caller's \<open>select\<close> runs, the
  receive cannot be taken, and \<open>Race\<close> returns through the \<open>Done\<close> branch a \<open>Result\<close>
  with index \<open>-1\<close>, the zero value and the error \<open>e\<close>, together with \<open>e\<close> as its
  error.
\<close>

theorem Race_done_before_publish:
  assumes "workers \<noteq> []"
    and "Race_run zero canceled workers pre (Race_launch ctx workers) = Some t"
    and "caller t = M_select"
    and "ctx_err (callerCtx t) = Some e"
    and "sends pre = 0"
  shows "Race zero canceled ctx workers (pre @ [MainCtxDone]) =
           Some (\<lparr>Value = zero, Err = Some e, Index = - 1\<rparr>, Some e) \<and>
         Race zero canceled ctx workers (pre @ [MainRecv]) = None"
proof -
  note hist = Race_hist_run[OF assms(2)]
  have "first_send pre = None" using assms(5) by (simp add: first_send_None_sends)
  moreover have "receives pre = 0" using hist assms(3) by (simp add: Race_hist_def)
  ultimately have empty: "resultCh t = []" using hist by (simp add: Race_hist_def)
  show ?thesis
    using assms(1-4) empty
    by (simp add: Race_def Race_enter_def Race_run_append)
qed

theorem Race_done_before_publish_witness:
  "Race (0::nat) ''context canceled'' \<lparr>ctx_err = None\<rparr> [\<lambda>c. (7, None)]
     ([CtxCancel ''context deadline exceeded'', WorkerReturn 0] @ [MainCtxDone])
   = Some (\<lparr>Value = 0, Err = Some ''context deadline exceeded'', Index = - 1\<rparr>,
           Some ''context deadline exceeded'') \<and>
   Race (0::nat) ''context canceled'' \<lparr>ctx_err = None\<rparr> [\<lambda>c. (7, None)]
     ([CtxCancel ''context deadline exceeded'', WorkerReturn 0] @ [MainRecv]) = None"
proof -
  have ne: "[\<lambda>c::string Context. (7::nat, None::string option)] \<noteq> []" by simp
  have run: "Race_run (0::nat) ''context canceled'' [\<lambda>c. (7, None)]
       [CtxCancel ''context deadline exceeded'', WorkerReturn 0]
       (Race_launch \<lparr>ctx_err = None\<rparr> [\<lambda>c. (7, None)])
     = Some \<lparr>callerCtx = \<lparr>ctx_err = Some ''context deadline exceeded''\<rparr>,
             raceCtx = \<lparr>ctx_err = None\<rparr>,
             resultCh = [],
             gos = [G_select \<lparr>Value = 7, Err = None, Index = 0\<rparr>],
             caller = M_select\<rparr>"
    by (simp add: Race_eval)
  have sel: "caller \<lparr>callerCtx = \<lparr>ctx_err = Some ''context deadline exceeded''\<rparr>,
             raceCtx = \<lparr>ctx_err = None\<rparr>,
             resultCh = [],
             gos = [G_select \<lparr>Value = 7::nat, Err = None::string option, Index = 0\<rparr>],
             caller = M_select\<rparr> = M_select" by simp
  have err: "ctx_err (callerCtx \<lparr>callerCtx = \<lparr>ctx_err = Some ''context deadline exceeded''\<rparr>,
             raceCtx = \<lparr>ctx_err = None\<rparr>,
             resultCh = [],
             gos = [G_select \<lparr>Value = 7::nat, Err = None::string option, Index = 0\<rparr>],
             caller = M_select\<rparr>) = Some ''context deadline exceeded''" by simp
  have ns: "sends [CtxCancel ''context deadline exceeded'', WorkerReturn 0] = 0"
    by (simp add: sends_def)
  show ?thesis
    using Race_done_before_publish[OF ne run sel err ns] .
qed

text \<open>
  C6. For every context, \<open>Race\<close> with no worker returns the zero \<open>Result\<close> (zero
  value, nil error, index \<open>0\<close>) and a nil error. It returns before it derives a
  context, makes the channel or launches a goroutine (\<open>Race_enter\<close> yields the return
  values, not a state to run), and it returns under every schedule, the empty one
  included, so it never waits for a step of anyone.
\<close>

theorem Race_empty:
  "Race_enter zero ctx [] = Inl (\<lparr>Value = zero, Err = None, Index = 0\<rparr>, None) \<and>
   Race zero canceled ctx [] sched = Some (\<lparr>Value = zero, Err = None, Index = 0\<rparr>, None)"
  by (simp add: Race_def Race_enter_def)

text \<open>
  C7, as stated, fails: two publishes can succeed. Worker \<open>0\<close> sends, the caller
  receives and returns, which empties the channel; worker \<open>1\<close> then returns, and at its
  \<open>select\<close> the send can proceed again (the \<open>Done\<close> case can too, and Go may take
  either). The second \<open>Result\<close> stays in the channel.
\<close>

theorem Race_second_publish_counterexample:
  "sends [WorkerReturn 0, ChanSend 0, MainRecv, WorkerReturn 1, ChanSend 1 :: string event] = 2 \<and>
   Race_run (0::nat) ''context canceled'' [\<lambda>c. (1, None), \<lambda>c. (2, None)]
     [WorkerReturn 0, ChanSend 0, MainRecv, WorkerReturn 1, ChanSend 1]
     (Race_launch \<lparr>ctx_err = None\<rparr> [\<lambda>c. (1, None), \<lambda>c. (2, None)])
   = Some \<lparr>callerCtx = \<lparr>ctx_err = None\<rparr>,
           raceCtx = \<lparr>ctx_err = Some ''context canceled''\<rparr>,
           resultCh = [\<lparr>Value = 2, Err = None, Index = 1\<rparr>],
           gos = [G_cancel \<lparr>Value = 1, Err = None, Index = 0\<rparr>,
                  G_cancel \<lparr>Value = 2, Err = None, Index = 1\<rparr>],
           caller = M_return \<lparr>Value = 1, Err = None, Index = 0\<rparr> None\<rparr>"
  by (simp add: Race_eval sends_def)

text \<open>
  C7, amended. In every execution of \<open>Race\<close> the caller receives from the channel at
  most once, so it observes at most one worker's \<open>Result\<close>, and the one it receives is
  that of the first successful publish. The channel never holds more than one
  \<open>Result\<close>, and at most two publishes succeed in all: the winner's, and possibly one
  after the caller has received, whose \<open>Result\<close> is never received.
\<close>

theorem Race_single_observation:
  assumes "Race_run zero canceled workers sched (Race_launch ctx workers) = Some s"
  shows "receives sched \<le> 1 \<and>
         length (resultCh s) \<le> 1 \<and>
         sends sched \<le> 2 \<and>
         (receives sched = 1 \<longrightarrow>
            (\<exists>i r. first_send sched = Some i \<and> i < length workers \<and>
                   produced (gos s ! i) = Some r \<and> caller s = M_return r (Err r)))"
proof -
  note hist = Race_hist_run[OF assms]
  have inv: "Race_inv workers s" using Race_inv_run[OF assms Race_inv_launch] .
  have r: "receives sched \<le> 1" and eq: "sends sched = receives sched + length (resultCh s)"
    using hist by (simp_all add: Race_hist_def)
  have l: "length (resultCh s) \<le> 1" using inv by (simp add: Race_inv_def)
  have w: "receives sched = 1 \<longrightarrow>
            (\<exists>i r. first_send sched = Some i \<and> i < length workers \<and>
                   produced (gos s ! i) = Some r \<and> caller s = M_return r (Err r))"
    using hist by (simp add: Race_hist_def)
  from r l eq have "sends sched \<le> 2" by simp
  with r l w show ?thesis by blast
qed

theorem Race_single_observation_witness:
  "receives [WorkerReturn 0, ChanSend 0, MainRecv, WorkerReturn 1, ChanSend 1 :: string event] = 1 \<and>
   first_send [WorkerReturn 0, ChanSend 0, MainRecv, WorkerReturn 1, ChanSend 1 :: string event] = Some 0 \<and>
   (\<exists>i r. first_send [WorkerReturn 0, ChanSend 0, MainRecv, WorkerReturn 1, ChanSend 1 :: string event] = Some i \<and>
      i < length [\<lambda>c::string Context. (1::nat, None::string option), \<lambda>c. (2, None)] \<and>
      produced (gos \<lparr>callerCtx = \<lparr>ctx_err = None\<rparr>,
           raceCtx = \<lparr>ctx_err = Some ''context canceled''\<rparr>,
           resultCh = [\<lparr>Value = 2::nat, Err = None, Index = 1\<rparr>],
           gos = [G_cancel \<lparr>Value = 1, Err = None, Index = 0\<rparr>,
                  G_cancel \<lparr>Value = 2, Err = None, Index = 1\<rparr>],
           caller = M_return \<lparr>Value = 1, Err = None, Index = 0\<rparr> None\<rparr> ! i) = Some r \<and>
      r = \<lparr>Value = 1, Err = None, Index = 0\<rparr>)"
proof -
  have run: "Race_run (0::nat) ''context canceled'' [\<lambda>c. (1, None), \<lambda>c. (2, None)]
     [WorkerReturn 0, ChanSend 0, MainRecv, WorkerReturn 1, ChanSend 1]
     (Race_launch \<lparr>ctx_err = None\<rparr> [\<lambda>c. (1, None), \<lambda>c. (2, None)])
   = Some \<lparr>callerCtx = \<lparr>ctx_err = None\<rparr>,
           raceCtx = \<lparr>ctx_err = Some ''context canceled''\<rparr>,
           resultCh = [\<lparr>Value = 2, Err = None, Index = 1\<rparr>],
           gos = [G_cancel \<lparr>Value = 1, Err = None, Index = 0\<rparr>,
                  G_cancel \<lparr>Value = 2, Err = None, Index = 1\<rparr>],
           caller = M_return \<lparr>Value = 1, Err = None, Index = 0\<rparr> None\<rparr>"
    by (simp add: Race_eval)
  have rc: "receives [WorkerReturn 0, ChanSend 0, MainRecv, WorkerReturn 1, ChanSend 1 :: string event] = 1"
    by (simp add: receives_def)
  show ?thesis
    using Race_single_observation[OF run] rc by auto
qed

text \<open>
  C8. On every return path of \<open>Race\<close> with a non-empty worker list (a winner with or
  without an error, or the caller's context being done), the context \<open>Race\<close> derived
  is done once \<open>Race\<close> has returned, and stays so whatever runs afterwards.
\<close>

theorem Race_scope_cancelled:
  assumes "Race_enter zero ctx workers = Inr s0"
    and "Race_run zero canceled workers sched s0 = Some s"
    and "caller s = M_return res err"
  shows "ctx_done (raceCtx s)"
proof -
  from assms(1) have "s0 = Race_launch ctx workers"
    by (simp add: Race_enter_def split: if_splits)
  with assms(2) have "Race_run zero canceled workers sched (Race_launch ctx workers) = Some s"
    by simp
  then have "Race_inv workers s"
    using Race_inv_launch by (rule Race_inv_run)
  with assms(3) show ?thesis by (simp add: Race_inv_def)
qed

theorem Race_scope_cancelled_witness:
  "ctx_done (raceCtx \<lparr>callerCtx = \<lparr>ctx_err = Some ''context deadline exceeded''\<rparr>,
             raceCtx = \<lparr>ctx_err = Some ''context canceled''\<rparr>,
             resultCh = [],
             gos = [G_worker],
             caller = M_return \<lparr>Value = 0::nat, Err = Some ''context deadline exceeded'', Index = - 1\<rparr>
                        (Some ''context deadline exceeded'')\<rparr>)"
proof -
  have ent: "Race_enter (0::nat) \<lparr>ctx_err = None\<rparr> [\<lambda>c::string Context. (7::nat, None::string option)]
      = Inr (Race_launch \<lparr>ctx_err = None\<rparr> [\<lambda>c. (7, None)])"
    by (simp add: Race_enter_def)
  have run: "Race_run (0::nat) ''context canceled'' [\<lambda>c. (7, None)]
       [CtxCancel ''context deadline exceeded'', MainCtxDone]
       (Race_launch \<lparr>ctx_err = None\<rparr> [\<lambda>c. (7, None)])
     = Some \<lparr>callerCtx = \<lparr>ctx_err = Some ''context deadline exceeded''\<rparr>,
             raceCtx = \<lparr>ctx_err = Some ''context canceled''\<rparr>,
             resultCh = [],
             gos = [G_worker],
             caller = M_return \<lparr>Value = 0, Err = Some ''context deadline exceeded'', Index = - 1\<rparr>
                        (Some ''context deadline exceeded'')\<rparr>"
    by (simp add: Race_eval)
  show ?thesis
    by (rule Race_scope_cancelled[OF ent run]) simp
qed

text \<open>
  C9. For every call of \<open>Race\<close> that returns, the error returned equals the \<open>Err\<close> field
  of the \<open>Result\<close> returned. With no worker both are nil; otherwise \<open>Race\<close> returned
  through its receive, and the \<open>Result\<close> is the one the winner's worker returned, or
  through the \<open>Done\<close> branch, and the error is the one of the caller's context.
\<close>

theorem Race_error_is_result_Err:
  assumes "Race zero canceled ctx workers sched = Some (res, err)"
  shows "err = Err res \<and>
         (workers = [] \<longrightarrow> err = None) \<and>
         (workers \<noteq> [] \<longrightarrow> MainRecv \<in> set sched \<or> MainCtxDone \<in> set sched) \<and>
         (workers \<noteq> [] \<and> MainRecv \<in> set sched \<longrightarrow>
            (\<exists>i < length workers. first_send sched = Some i \<and>
               returned_by zero canceled ctx workers sched i res)) \<and>
         (workers \<noteq> [] \<and> MainCtxDone \<in> set sched \<longrightarrow>
            (\<exists>e. err = Some e \<and> (ctx_err ctx = Some e \<or> CtxCancel e \<in> set sched)))"
proof (cases "workers = []")
  case True
  with assms show ?thesis by (auto simp: Race_def Race_enter_def)
next
  case False
  from assms False obtain s where
    run: "Race_run zero canceled workers sched (Race_launch ctx workers) = Some s"
    and ret: "caller s = M_return res err"
    by (rule Race_returnsD)
  note hist = Race_hist_run[OF run]
  have inv: "Race_inv workers s" using Race_inv_run[OF run Race_inv_launch] .
  have e: "err = Err res" using inv ret by (simp add: Race_inv_def)
  have p: "MainRecv \<in> set sched \<or> MainCtxDone \<in> set sched"
    using hist ret by (simp add: Race_hist_def receives_pos)
  have w: "MainRecv \<in> set sched \<longrightarrow>
            (\<exists>i < length workers. first_send sched = Some i \<and>
               returned_by zero canceled ctx workers sched i res)"
  proof
    assume "MainRecv \<in> set sched"
    then have "receives sched \<noteq> 0" by (simp add: receives_pos)
    with hist ret obtain i where i: "first_send sched = Some i" "i < length workers"
      "produced (gos s ! i) = Some res"
      by (auto simp: Race_hist_def)
    with hist have "returned_by zero canceled ctx workers sched i res"
      by (simp add: Race_hist_def)
    with i show "\<exists>i < length workers. first_send sched = Some i \<and>
               returned_by zero canceled ctx workers sched i res" by blast
  qed
  have c: "MainCtxDone \<in> set sched \<longrightarrow>
            (\<exists>e. err = Some e \<and> (ctx_err ctx = Some e \<or> CtxCancel e \<in> set sched))"
  proof
    assume "MainCtxDone \<in> set sched"
    with hist ret obtain e where "ctx_err (callerCtx s) = Some e" "err = Some e"
      by (auto simp: Race_hist_def)
    moreover from this hist have "ctx_err ctx = Some e \<or> CtxCancel e \<in> set sched"
      by (simp add: Race_hist_def)
    ultimately show "\<exists>e. err = Some e \<and> (ctx_err ctx = Some e \<or> CtxCancel e \<in> set sched)"
      by blast
  qed
  from False e p w c show ?thesis by blast
qed

theorem Race_error_is_result_Err_witness:
  "Race (0::nat) ''context canceled'' \<lparr>ctx_err = None\<rparr>
     [\<lambda>c. (0, Some ''boom''), \<lambda>c. (1, None)]
     [WorkerReturn 0, ChanSend 0, WorkerReturn 1, MainRecv, CallCancel 0, SeeDone 1]
   = Some (\<lparr>Value = 0, Err = Some ''boom'', Index = 0\<rparr>, Some ''boom'') \<and>
   Some ''boom'' = Err \<lparr>Value = 0::nat, Err = Some ''boom'', Index = 0\<rparr>"
proof -
  have ret: "Race (0::nat) ''context canceled'' \<lparr>ctx_err = None\<rparr>
     [\<lambda>c. (0, Some ''boom''), \<lambda>c. (1, None)]
     [WorkerReturn 0, ChanSend 0, WorkerReturn 1, MainRecv, CallCancel 0, SeeDone 1]
   = Some (\<lparr>Value = 0, Err = Some ''boom'', Index = 0\<rparr>, Some ''boom'')"
    by (simp add: Race_eval)
  show ?thesis
    using Race_error_is_result_Err[OF ret] ret by blast
qed

end
